theory Spec2Isabelle
  imports Main "HOL-Library.Sublist"
begin

section \<open>The service worker of Podologie Weimar (src/sw.js)\<close>

text \<open>
  The worker is event driven: the browser calls its install, activate and fetch
  listeners, and the listeners work on the browser's cache storage and on the network.
  The embedding passes the worker's surroundings explicitly: a state record holds the
  cache storage, the two lifecycle signals the worker can give, and a trace of every
  call the worker makes to the browser; the network is a function from requests to
  either an error (the fetch promise rejects) or a response.
\<close>

subsection \<open>Requests, responses, errors\<close>

text \<open>
  A request as the listeners read it: \<open>request.url\<close> is the origin followed by the
  path (with the query string), \<open>request.method\<close> and \<open>request.mode\<close> are strings.
\<close>

record request =
  req_origin :: string
  req_path :: string
  req_method :: string
  req_mode :: string

definition url :: "request \<Rightarrow> string" where
  "url q = req_origin q @ req_path q"

record response =
  status :: nat
  statusText :: string
  body :: string

datatype error = TypeError string

type_synonym network = "request \<Rightarrow> error + response"

text \<open>
  A request built from a URL string, as \<open>caches.match('/')\<close> and \<open>cache.addAll\<close> build
  it: the string is resolved against the worker's own origin, the method is GET.
\<close>

definition request_of :: "string \<Rightarrow> string \<Rightarrow> request" where
  "request_of loc path =
     \<lparr>req_origin = loc, req_path = path, req_method = ''GET'', req_mode = ''cors''\<rparr>"

subsection \<open>The browser's cache storage\<close>

text \<open>
  One cache is the list of its entries, request URL and response, in insertion order
  (the order \<open>cache.keys()\<close> reports). The storage is the list of the named caches in
  creation order (the order \<open>caches.keys()\<close> reports and \<open>caches.match\<close> searches).
\<close>

type_synonym cache = "(string \<times> response) list"

type_synonym cache_storage = "(string \<times> cache) list"

datatype event =
    Fetch string
  | Match string
  | Open string
  | Put string string
  | Keys string
  | Delete string string
  | AddAll string
  | CachesKeys
  | CachesDelete string
  | SkipWaiting
  | ClientsClaim
  | ConsoleLog string
  | ConsoleError string

record sw_state =
  storage :: cache_storage
  events :: "event list"
  skipWaitingCalled :: bool
  clientsClaimed :: bool

definition emit :: "event \<Rightarrow> sw_state \<Rightarrow> sw_state" where
  "emit e s = s\<lparr>events := events s @ [e]\<rparr>"

text \<open>Only GET requests are looked up; every other method matches nothing.\<close>

definition cache_lookup :: "cache \<Rightarrow> request \<Rightarrow> response option" where
  "cache_lookup c q = (if req_method q = ''GET'' then map_of c (url q) else None)"

fun match_in :: "cache_storage \<Rightarrow> request \<Rightarrow> response option" where
  "match_in [] q = None"
| "match_in ((n, c) # rest) q =
     (case cache_lookup c q of Some r \<Rightarrow> Some r | None \<Rightarrow> match_in rest q)"

fun has_cache :: "string \<Rightarrow> cache_storage \<Rightarrow> bool" where
  "has_cache name [] = False"
| "has_cache name ((n, c) # rest) = (n = name \<or> has_cache name rest)"

definition open_in :: "string \<Rightarrow> cache_storage \<Rightarrow> cache_storage" where
  "open_in name st = (if has_cache name st then st else st @ [(name, [])])"

fun upd_cache :: "string \<Rightarrow> (cache \<Rightarrow> cache) \<Rightarrow> cache_storage \<Rightarrow> cache_storage" where
  "upd_cache name f [] = []"
| "upd_cache name f ((n, c) # rest) =
     (if n = name then (n, f c) # upd_cache name f rest
      else (n, c) # upd_cache name f rest)"

definition caches_match :: "request \<Rightarrow> sw_state \<Rightarrow> response option \<times> sw_state" where
  "caches_match q s = (match_in (storage s) q, emit (Match (url q)) s)"

text \<open>\<open>caches.open\<close> creates the cache when no cache of that name exists.\<close>

definition caches_open :: "string \<Rightarrow> sw_state \<Rightarrow> sw_state" where
  "caches_open name s = emit (Open name) (s\<lparr>storage := open_in name (storage s)\<rparr>)"

text \<open>
  \<open>cache.put\<close> removes the entry of the same URL, if any, and appends the new one. For
  a request that is not a GET the browser rejects the promise and stores nothing; the
  worker never awaits that promise.
\<close>

definition put_entry :: "string \<Rightarrow> response \<Rightarrow> cache \<Rightarrow> cache" where
  "put_entry k r c = filter (\<lambda>e. fst e \<noteq> k) c @ [(k, r)]"

definition cache_put :: "string \<Rightarrow> request \<Rightarrow> response \<Rightarrow> sw_state \<Rightarrow> sw_state" where
  "cache_put name q r s =
     emit (Put name (url q))
       (if req_method q = ''GET''
        then s\<lparr>storage := upd_cache name (put_entry (url q) r) (storage s)\<rparr>
        else s)"

fun entries_of :: "string \<Rightarrow> cache_storage \<Rightarrow> cache" where
  "entries_of name [] = []"
| "entries_of name ((n, c) # rest) = (if n = name then c else entries_of name rest)"

definition cache_keys :: "string \<Rightarrow> sw_state \<Rightarrow> string list \<times> sw_state" where
  "cache_keys name s = (map fst (entries_of name (storage s)), emit (Keys name) s)"

definition cache_delete :: "string \<Rightarrow> string \<Rightarrow> sw_state \<Rightarrow> sw_state" where
  "cache_delete name k s =
     emit (Delete name k)
       (s\<lparr>storage := upd_cache name (filter (\<lambda>e. fst e \<noteq> k)) (storage s)\<rparr>)"

definition caches_keys :: "sw_state \<Rightarrow> string list \<times> sw_state" where
  "caches_keys s = (map fst (storage s), emit CachesKeys s)"

definition caches_delete :: "string \<Rightarrow> sw_state \<Rightarrow> sw_state" where
  "caches_delete name s =
     emit (CachesDelete name) (s\<lparr>storage := filter (\<lambda>e. fst e \<noteq> name) (storage s)\<rparr>)"

definition fetch :: "network \<Rightarrow> request \<Rightarrow> sw_state \<Rightarrow> (error + response) \<times> sw_state" where
  "fetch net q s = (net q, emit (Fetch (url q)) s)"

text \<open>
  \<open>cache.addAll\<close> fetches every URL of the list and stores the responses only when
  every fetch gave a response with an ok status (200 to 299, and not 206); otherwise it
  rejects and stores nothing.
\<close>

fun fetch_all :: "network \<Rightarrow> request list \<Rightarrow> sw_state \<Rightarrow> (error + response) list \<times> sw_state" where
  "fetch_all net [] s = ([], s)"
| "fetch_all net (q # qs) s =
     (let (r, s1) = fetch net q s;
          (rs, s2) = fetch_all net qs s1
      in (r # rs, s2))"

definition addable :: "error + response \<Rightarrow> bool" where
  "addable x =
     (case x of Inl e \<Rightarrow> False
      | Inr r \<Rightarrow> 200 \<le> status r \<and> status r \<le> 299 \<and> status r \<noteq> 206)"

fun put_all :: "string \<Rightarrow> request list \<Rightarrow> (error + response) list \<Rightarrow> sw_state \<Rightarrow> sw_state" where
  "put_all name (q # qs) (Inr r # rs) s = put_all name qs rs (cache_put name q r s)"
| "put_all name qs rs s = s"

definition cache_addAll ::
  "string \<Rightarrow> request list \<Rightarrow> network \<Rightarrow> sw_state \<Rightarrow> (error + unit) \<times> sw_state" where
  "cache_addAll name qs net s =
     (let (rs, s1) = fetch_all net qs (emit (AddAll name) s)
      in if list_all addable rs
         then (Inr (), put_all name qs rs s1)
         else (Inl (TypeError ''Failed to execute addAll on Cache''), s1))"

definition skipWaiting :: "sw_state \<Rightarrow> sw_state" where
  "skipWaiting s = emit SkipWaiting (s\<lparr>skipWaitingCalled := True\<rparr>)"

definition clients_claim :: "sw_state \<Rightarrow> sw_state" where
  "clients_claim s = emit ClientsClaim (s\<lparr>clientsClaimed := True\<rparr>)"

subsection \<open>The worker's constants\<close>

definition CACHE_NAME :: string where
  "CACHE_NAME = ''podologie-weimar-v1.0.0''"

definition STATIC_CACHE :: string where
  "STATIC_CACHE = CACHE_NAME @ ''-static''"

definition DYNAMIC_CACHE :: string where
  "DYNAMIC_CACHE = CACHE_NAME @ ''-dynamic''"

definition STATIC_ASSETS :: "string list" where
  "STATIC_ASSETS =
     [''/'', ''/index.html'', ''/styles.css'', ''/script.js'',
      ''/images/about1.jpeg'', ''/images/about2.jpeg'', ''/images/about3.jpeg'',
      ''/images/about4.jpeg'', ''/images/about5.jpeg'']"

definition MAX_DYNAMIC_CACHE_SIZE :: nat where
  "MAX_DYNAMIC_CACHE_SIZE = 50"

subsection \<open>The install listener\<close>

text \<open>
  The listener hands \<open>event.waitUntil\<close> the promise
  \<open>caches.open(..).then(addAll).then(skipWaiting).catch(console.error)\<close>. The value
  returned here is how that promise settles: \<open>Inr ()\<close> when it is fulfilled, \<open>Inl e\<close>
  when it is rejected. The browser lets the install fail exactly when it is rejected.
  The final \<open>catch\<close> turns a rejection of \<open>addAll\<close> into a fulfilled promise.
\<close>

definition onInstall :: "string \<Rightarrow> network \<Rightarrow> sw_state \<Rightarrow> (error + unit) \<times> sw_state" where
  "onInstall loc net s =
     (let s1 = emit (ConsoleLog ''Service Worker installing...'') s;
          s2 = caches_open STATIC_CACHE s1;
          s3 = emit (ConsoleLog ''Caching static assets...'') s2;
          (added, s4) = cache_addAll STATIC_CACHE (map (request_of loc) STATIC_ASSETS) net s3
      in case added of
           Inr u \<Rightarrow> (Inr (), skipWaiting s4)
         | Inl e \<Rightarrow> (Inr (), emit (ConsoleError ''Error caching static assets:'') s4))"

definition install_fails :: "error + unit \<Rightarrow> bool" where
  "install_fails settled = (case settled of Inl e \<Rightarrow> True | Inr u \<Rightarrow> False)"

subsection \<open>The activate listener\<close>

definition delete_if_old :: "string \<Rightarrow> sw_state \<Rightarrow> sw_state" where
  "delete_if_old cacheName s =
     (if cacheName \<noteq> STATIC_CACHE \<and> cacheName \<noteq> DYNAMIC_CACHE
      then caches_delete cacheName (emit (ConsoleLog ''Deleting old cache:'') s)
      else s)"

definition onActivate :: "sw_state \<Rightarrow> sw_state" where
  "onActivate s =
     (let s1 = emit (ConsoleLog ''Service Worker activating...'') s;
          (cacheNames, s2) = caches_keys s1;
          s3 = fold delete_if_old cacheNames s2
      in clients_claim s3)"

subsection \<open>The two strategies and the size limit\<close>

definition unavailable :: "string \<Rightarrow> response" where
  "unavailable msg = \<lparr>status = 503, statusText = ''Service Unavailable'', body = msg\<rparr>"

definition cacheFirst :: "network \<Rightarrow> request \<Rightarrow> sw_state \<Rightarrow> response \<times> sw_state" where
  "cacheFirst net q s =
     (let (cachedResponse, s1) = caches_match q s
      in case cachedResponse of
           Some r \<Rightarrow> (r, s1)
         | None \<Rightarrow>
             (let (fetched, s2) = fetch net q s1
              in case fetched of
                   Inr networkResponse \<Rightarrow>
                     (if status networkResponse = 200
                      then (networkResponse,
                            cache_put STATIC_CACHE q networkResponse (caches_open STATIC_CACHE s2))
                      else (networkResponse, s2))
                 | Inl e \<Rightarrow>
                     (unavailable ''Offline content not available'',
                      emit (ConsoleError ''Cache-first strategy failed:'') s2)))"

text \<open>
  \<open>keys.slice(0, keys.length - size)\<close> is the first \<open>keys.length - size\<close> keys, the
  oldest ones; each of them is deleted.
\<close>

definition limitCacheSize :: "string \<Rightarrow> nat \<Rightarrow> sw_state \<Rightarrow> sw_state" where
  "limitCacheSize cacheName maxSize s =
     (let s1 = caches_open cacheName s;
          (keys, s2) = cache_keys cacheName s1
      in if length keys > maxSize
         then fold (cache_delete cacheName) (take (length keys - maxSize) keys) s2
         else s2)"

text \<open>
  \<open>networkFirst\<close> calls \<open>limitCacheSize\<close> and then \<open>cache.put\<close> and awaits neither:
  both go on after \<open>networkFirst\<close> has returned, and the browser decides which of the
  two takes effect first. \<open>limitCacheSize\<close> is taken as one step; the write of the put
  lands after it, which is the order of the two calls in the source (\<open>cache.put\<close> has
  to read the body of the response before it writes), or before it.
\<close>

datatype put_order = PutAfterTrim | PutBeforeTrim

definition networkFirst ::
  "put_order \<Rightarrow> network \<Rightarrow> request \<Rightarrow> sw_state \<Rightarrow> response \<times> sw_state" where
  "networkFirst order net q s =
     (let (fetched, s1) = fetch net q s
      in case fetched of
           Inr networkResponse \<Rightarrow>
             (if status networkResponse = 200
              then (let s2 = caches_open DYNAMIC_CACHE s1
                    in (networkResponse,
                        case order of
                          PutAfterTrim \<Rightarrow>
                            cache_put DYNAMIC_CACHE q networkResponse
                              (limitCacheSize DYNAMIC_CACHE MAX_DYNAMIC_CACHE_SIZE s2)
                        | PutBeforeTrim \<Rightarrow>
                            limitCacheSize DYNAMIC_CACHE MAX_DYNAMIC_CACHE_SIZE
                              (cache_put DYNAMIC_CACHE q networkResponse s2)))
              else (networkResponse, s1))
         | Inl e \<Rightarrow>
             (let s2 = emit (ConsoleLog ''Network failed, trying cache:'') s1;
                  (cachedResponse, s3) = caches_match q s2
              in case cachedResponse of
                   Some r \<Rightarrow> (r, s3)
                 | None \<Rightarrow> (unavailable ''Content not available offline'', s3)))"

subsection \<open>The fetch listener\<close>

definition endsWith :: "string \<Rightarrow> string \<Rightarrow> bool" where
  "endsWith u a = suffix a u"

definition str_includes :: "string \<Rightarrow> string \<Rightarrow> bool" where
  "str_includes u a = sublist a u"

definition isStaticAsset :: "string \<Rightarrow> bool" where
  "isStaticAsset u =
     (list_ex (\<lambda>asset. endsWith u asset) STATIC_ASSETS \<or>
      str_includes u ''/images/'' \<or>
      endsWith u ''.css'' \<or>
      endsWith u ''.js'' \<or>
      endsWith u ''.jpg'' \<or>
      endsWith u ''.jpeg'' \<or>
      endsWith u ''.png'' \<or>
      endsWith u ''.gif'' \<or>
      endsWith u ''.webp'')"

text \<open>
  What the listener does with the event: it returns without \<open>respondWith\<close> (the
  browser handles the request itself), or it answers with a response, or the promise
  given to \<open>respondWith\<close> is fulfilled with \<open>undefined\<close> (the page gets a network error).
\<close>

datatype fetch_outcome = NotIntercepted | Responded response | RespondedUndefined

definition onFetch ::
  "string \<Rightarrow> put_order \<Rightarrow> network \<Rightarrow> request \<Rightarrow> sw_state \<Rightarrow> fetch_outcome \<times> sw_state" where
  "onFetch loc order net q s =
     (if req_origin q \<noteq> loc then (NotIntercepted, s)
      else if req_mode q = ''navigate''
      then (let (root, s1) = caches_match (request_of loc ''/'') s
            in case root of
                 Some r \<Rightarrow> (Responded r, s1)
               | None \<Rightarrow>
                   (let (fetched, s2) = fetch net q s1
                    in case fetched of
                         Inr r \<Rightarrow> (Responded r, s2)
                       | Inl e \<Rightarrow>
                           (let (again, s3) = caches_match (request_of loc ''/'') s2
                            in case again of
                                 Some r \<Rightarrow> (Responded r, s3)
                               | None \<Rightarrow> (RespondedUndefined, s3))))
      else if isStaticAsset (url q)
      then (let (r, s1) = cacheFirst net q s in (Responded r, s1))
      else (let (r, s1) = networkFirst order net q s in (Responded r, s1)))"

subsection \<open>Observations\<close>

definition fetches :: "sw_state \<Rightarrow> event list" where
  "fetches s = filter (\<lambda>e. case e of Fetch u \<Rightarrow> True | _ \<Rightarrow> False) (events s)"

definition lookups :: "sw_state \<Rightarrow> event list" where
  "lookups s = filter (\<lambda>e. case e of Match u \<Rightarrow> True | _ \<Rightarrow> False) (events s)"

definition fresh :: sw_state where
  "fresh = \<lparr>storage = [], events = [], skipWaitingCalled = False, clientsClaimed = False\<rparr>"

definition dynamic_entries :: "sw_state \<Rightarrow> cache" where
  "dynamic_entries s = entries_of DYNAMIC_CACHE (storage s)"

definition static_entries :: "sw_state \<Rightarrow> cache" where
  "static_entries s = entries_of STATIC_CACHE (storage s)"

text \<open>What the deletions of \<open>limitCacheSize\<close> leave of a cache.\<close>

definition trimmed :: "nat \<Rightarrow> cache \<Rightarrow> cache" where
  "trimmed maxSize c =
     (if length c > maxSize
      then filter (\<lambda>e. fst e \<notin> set (take (length c - maxSize) (map fst c))) c
      else c)"

subsection \<open>Scenarios\<close>

text \<open>
  Networks: one that answers every request with the same response, one that is down,
  and one that is down for a single path only.
\<close>

definition always :: "response \<Rightarrow> network" where
  "always r q = Inr r"

definition offline :: network where
  "offline q = Inl (TypeError ''Failed to fetch'')"

definition failing_for :: "string \<Rightarrow> response \<Rightarrow> network" where
  "failing_for path r q =
     (if req_path q = path then Inl (TypeError ''Failed to fetch'') else Inr r)"

definition site :: string where
  "site = ''https://praxis.example''"

definition ok200 :: response where
  "ok200 = \<lparr>status = 200, statusText = ''OK'', body = ''ok''\<rparr>"

definition no_content :: response where
  "no_content = \<lparr>status = 204, statusText = ''No Content'', body = []\<rparr>"

definition not_found :: response where
  "not_found = \<lparr>status = 404, statusText = ''Not Found'', body = ''not found''\<rparr>"

definition get_request :: "string \<Rightarrow> request" where
  "get_request path =
     \<lparr>req_origin = site, req_path = path, req_method = ''GET'', req_mode = ''no-cors''\<rparr>"

definition post_request :: "string \<Rightarrow> request" where
  "post_request path =
     \<lparr>req_origin = site, req_path = path, req_method = ''POST'', req_mode = ''cors''\<rparr>"

definition page_request :: "string \<Rightarrow> request" where
  "page_request path =
     \<lparr>req_origin = site, req_path = path, req_method = ''GET'', req_mode = ''navigate''\<rparr>"

text \<open>The worker's state after an install in which every asset of the manifest was fetched.\<close>

definition installed :: sw_state where
  "installed = snd (onInstall site (always ok200) fresh)"

text \<open>A storage that still holds the static cache of an earlier version.\<close>

definition upgraded :: sw_state where
  "upgraded =
     fresh\<lparr>storage :=
       [(''podologie-weimar-v0.9.0-static'', [(site @ ''/'', ok200)]),
        (STATIC_CACHE, [(site @ ''/'', ok200)]),
        (DYNAMIC_CACHE, [])]\<rparr>"

text \<open>
  A run of write cycles of the network-first strategy, one after the other: each request
  is answered by the network with the response paired with it, and in every cycle the
  put and the trim take effect in the given order.
\<close>

fun dynamic_writes :: "put_order \<Rightarrow> (request \<times> response) list \<Rightarrow> sw_state \<Rightarrow> sw_state" where
  "dynamic_writes order [] s = s"
| "dynamic_writes order ((q, r) # ws) s =
     dynamic_writes order ws (snd (networkFirst order (always r) q s))"

definition dynamic_request :: "nat \<Rightarrow> request" where
  "dynamic_request i =
     \<lparr>req_origin = site, req_path = ''/termine?seite='' @ replicate i (CHR ''1''),
      req_method = ''GET'', req_mode = ''cors''\<rparr>"

definition first_writes :: "nat \<Rightarrow> (request \<times> response) list" where
  "first_writes n = map (\<lambda>i. (dynamic_request i, ok200)) [0..<n]"

text \<open>The entry that the write of \<open>dynamic_request i\<close> leaves in the cache.\<close>

definition stored :: "nat \<Rightarrow> string \<times> response" where
  "stored i = (url (dynamic_request i), ok200)"

text \<open>The state after one dynamic page was fetched while the network was up.\<close>

definition visited :: sw_state where
  "visited = snd (networkFirst PutAfterTrim (always ok200) (dynamic_request 0) fresh)"

section \<open>Properties\<close>

subsection \<open>Lemmas on the state and the storage\<close>

lemma emit_simps:
  "storage (emit e s) = storage s"
  "events (emit e s) = events s @ [e]"
  "skipWaitingCalled (emit e s) = skipWaitingCalled s"
  "clientsClaimed (emit e s) = clientsClaimed s"
  by (simp_all add: emit_def)

lemma fetches_emit:
  "fetches (emit e s) = (case e of Fetch u \<Rightarrow> fetches s @ [e] | _ \<Rightarrow> fetches s)"
  by (cases e) (simp_all add: fetches_def emit_def)

lemma lookups_emit:
  "lookups (emit e s) = (case e of Match u \<Rightarrow> lookups s @ [e] | _ \<Rightarrow> lookups s)"
  by (cases e) (simp_all add: lookups_def emit_def)

lemma has_cache_iff: "has_cache name st = (name \<in> fst ` set st)"
  by (induction st) auto

lemma has_cache_append: "has_cache name (st @ st') = (has_cache name st \<or> has_cache name st')"
  by (induction st) auto

lemma entries_of_append:
  "entries_of name (st @ st') =
     (if has_cache name st then entries_of name st else entries_of name st')"
  by (induction st) auto

lemma entries_of_absent: "\<not> has_cache name st \<Longrightarrow> entries_of name st = []"
  by (induction st) auto

lemma has_cache_open_in: "has_cache name (open_in name st)"
  by (simp add: open_in_def has_cache_append)

lemma entries_of_open_in: "entries_of name (open_in n st) = entries_of name st"
  by (simp add: open_in_def entries_of_append entries_of_absent)

lemma has_cache_upd_cache: "has_cache name (upd_cache n f st) = has_cache name st"
  by (induction st) (auto split: if_splits)

lemma entries_of_upd_cache:
  "has_cache name st \<Longrightarrow> entries_of name (upd_cache name f st) = f (entries_of name st)"
  by (induction st) auto

subsection \<open>Which strategy the fetch listener takes\<close>

text \<open>
  The requests of the scenarios reach the strategies through the fetch listener: the
  dynamic requests are served network first, the stylesheet and the images cache first.
\<close>

lemma last_of_suffix: "suffix a u \<Longrightarrow> a \<noteq> [] \<Longrightarrow> last u = last a"
  by (auto simp: suffix_def)

lemma last_url_dynamic_request:
  "last (url (dynamic_request i)) = (if i = 0 then CHR ''='' else CHR ''1'')"
  by (simp add: url_def dynamic_request_def site_def)

lemma dynamic_request_not_static: "\<not> isStaticAsset (url (dynamic_request i))"
proof -
  let ?u = "url (dynamic_request i)"
  have no_g: "CHR ''g'' \<notin> set ?u"
    by (simp add: url_def dynamic_request_def site_def)
  have "\<not> sublist ''/images/'' ?u"
  proof
    assume "sublist ''/images/'' ?u"
    then have "set ''/images/'' \<subseteq> set ?u"
      by (rule set_mono_sublist)
    with no_g show False by simp
  qed
  moreover have "\<not> suffix a ?u" if "a \<noteq> []" "last a \<noteq> CHR ''=''" "last a \<noteq> CHR ''1''" for a
    using that last_of_suffix [of a ?u] last_url_dynamic_request [of i]
    by (auto split: if_splits)
  ultimately show ?thesis
    by (simp add: isStaticAsset_def endsWith_def str_includes_def STATIC_ASSETS_def)
qed

lemma onFetch_dynamic_request:
  "onFetch site order net (dynamic_request i) s =
     (Responded (fst (networkFirst order net (dynamic_request i) s)),
      snd (networkFirst order net (dynamic_request i) s))"
  using dynamic_request_not_static [of i]
  by (simp add: onFetch_def split_beta) (simp add: dynamic_request_def)

lemma static_examples:
  "isStaticAsset (url (get_request ''/styles.css'')) \<and>
   isStaticAsset (url (get_request ''/images/logo.png'')) \<and>
   isStaticAsset (url (post_request ''/styles.css''))"
  by (simp add: isStaticAsset_def endsWith_def suffix_to_prefix url_def get_request_def
      post_request_def site_def)

lemma onFetch_static_example:
  "onFetch site order net (get_request ''/styles.css'') s =
     (Responded (fst (cacheFirst net (get_request ''/styles.css'') s)),
      snd (cacheFirst net (get_request ''/styles.css'') s))"
  using static_examples
  by (simp add: onFetch_def split_beta) (simp add: get_request_def)

subsection \<open>The size limit\<close>

lemma has_cache_fold_delete:
  "has_cache name (storage (fold (cache_delete n) ks s)) = has_cache name (storage s)"
  by (induction ks arbitrary: s) (simp_all add: cache_delete_def emit_simps has_cache_upd_cache)

lemma entries_of_fold_delete:
  "has_cache name (storage s) \<Longrightarrow>
   entries_of name (storage (fold (cache_delete name) ks s)) =
     filter (\<lambda>e. fst e \<notin> set ks) (entries_of name (storage s))"
proof (induction ks arbitrary: s)
  case Nil
  then show ?case by simp
next
  case (Cons k ks)
  have "has_cache name (storage (cache_delete name k s))"
    using Cons.prems by (simp add: cache_delete_def emit_simps has_cache_upd_cache)
  from Cons.IH [OF this] show ?case
    using Cons.prems
    by (simp add: cache_delete_def emit_simps entries_of_upd_cache conj_commute)
qed

lemma has_cache_limitCacheSize:
  "has_cache name (storage (limitCacheSize name maxSize s))"
  by (simp add: limitCacheSize_def cache_keys_def caches_open_def emit_simps Let_def
      has_cache_fold_delete has_cache_open_in)

lemma entries_of_limitCacheSize:
  "entries_of name (storage (limitCacheSize name maxSize s)) =
     trimmed maxSize (entries_of name (storage s))"
  by (simp add: limitCacheSize_def cache_keys_def caches_open_def emit_simps trimmed_def
      Let_def entries_of_fold_delete has_cache_open_in entries_of_open_in)

text \<open>The deletions leave at most \<open>maxSize\<close> entries.\<close>

lemma length_trimmed: "length (trimmed maxSize c) \<le> maxSize"
proof (cases "length c > maxSize")
  case False
  then show ?thesis by (simp add: trimmed_def)
next
  case True
  let ?d = "length c - maxSize"
  let ?P = "\<lambda>e. fst e \<notin> set (take ?d (map fst c))"
  have "filter ?P (take ?d c) = []"
    by (auto simp: filter_empty_conv take_map)
  then have "filter ?P c = filter ?P (drop ?d c)"
    by (metis append_Nil append_take_drop_id filter_append)
  moreover have "length (filter ?P (drop ?d c)) \<le> length (drop ?d c)"
    by (rule length_filter_le)
  ultimately show ?thesis
    using True by (simp add: trimmed_def)
qed

lemma trimmed_small: "length c \<le> maxSize \<Longrightarrow> trimmed maxSize c = c"
  by (simp add: trimmed_def)

lemma length_put_entry: "length (put_entry k r c) \<le> Suc (length c)"
  by (simp add: put_entry_def le_SucI)

lemma put_entry_new: "k \<notin> fst ` set c \<Longrightarrow> put_entry k r c = c @ [(k, r)]"
  by (auto simp: put_entry_def filter_id_conv)

text \<open>
  One write cycle of \<open>networkFirst\<close> on the DYNAMIC cache, in the order of the calls:
  the cache is trimmed to the maximum first, and the new entry is added to the trimmed
  cache.
\<close>

lemma dynamic_entries_networkFirst_200:
  assumes "net q = Inr r" "status r = 200"
  shows "dynamic_entries (snd (networkFirst PutAfterTrim net q s)) =
     (if req_method q = ''GET''
      then put_entry (url q) r (trimmed MAX_DYNAMIC_CACHE_SIZE (dynamic_entries s))
      else trimmed MAX_DYNAMIC_CACHE_SIZE (dynamic_entries s))"
  using assms
  by (simp add: networkFirst_def fetch_def cache_put_def emit_simps dynamic_entries_def
      Let_def entries_of_upd_cache has_cache_limitCacheSize entries_of_limitCacheSize
      caches_open_def entries_of_open_in)

text \<open>In the other order the new entry is added first and the cache is trimmed with it.\<close>

lemma dynamic_entries_networkFirst_200_put_first:
  assumes "net q = Inr r" "status r = 200"
  shows "dynamic_entries (snd (networkFirst PutBeforeTrim net q s)) =
     trimmed MAX_DYNAMIC_CACHE_SIZE
       (if req_method q = ''GET''
        then put_entry (url q) r (dynamic_entries s)
        else dynamic_entries s)"
  using assms
  by (simp add: networkFirst_def fetch_def cache_put_def emit_simps dynamic_entries_def
      Let_def entries_of_upd_cache has_cache_open_in entries_of_limitCacheSize
      caches_open_def entries_of_open_in)

text \<open>
  Had the put always landed before the trim, the maximum would hold after every write.
\<close>

lemma networkFirst_put_first_bound:
  assumes "net q = Inr r" "status r = 200"
  shows "length (dynamic_entries (snd (networkFirst PutBeforeTrim net q s)))
     \<le> MAX_DYNAMIC_CACHE_SIZE"
  using assms dynamic_entries_networkFirst_200_put_first [of net q r s]
  by (simp add: length_trimmed)

text \<open>What the code does keep: the DYNAMIC cache never holds more than the maximum plus one.\<close>

lemma networkFirst_bound:
  "length (dynamic_entries s) \<le> Suc MAX_DYNAMIC_CACHE_SIZE \<Longrightarrow>
   length (dynamic_entries (snd (networkFirst order net q s))) \<le> Suc MAX_DYNAMIC_CACHE_SIZE"
proof (cases "net q")
  case (Inl e)
  assume "length (dynamic_entries s) \<le> Suc MAX_DYNAMIC_CACHE_SIZE"
  with Inl show ?thesis
    by (simp add: networkFirst_def fetch_def caches_match_def emit_simps dynamic_entries_def
        Let_def split: option.splits)
next
  case (Inr r)
  assume b: "length (dynamic_entries s) \<le> Suc MAX_DYNAMIC_CACHE_SIZE"
  show ?thesis
  proof (cases "status r = 200")
    case True
    have "length (trimmed MAX_DYNAMIC_CACHE_SIZE (dynamic_entries s)) \<le> MAX_DYNAMIC_CACHE_SIZE"
      by (rule length_trimmed)
    moreover have
      "length (put_entry (url q) r (trimmed MAX_DYNAMIC_CACHE_SIZE (dynamic_entries s)))
        \<le> Suc (length (trimmed MAX_DYNAMIC_CACHE_SIZE (dynamic_entries s)))"
      by (rule length_put_entry)
    ultimately have "length (dynamic_entries (snd (networkFirst PutAfterTrim net q s)))
        \<le> Suc MAX_DYNAMIC_CACHE_SIZE"
      using Inr True dynamic_entries_networkFirst_200 [of net q r s] by simp
    moreover have "length (dynamic_entries (snd (networkFirst PutBeforeTrim net q s)))
        \<le> Suc MAX_DYNAMIC_CACHE_SIZE"
      using networkFirst_put_first_bound [of net q r s] Inr True by simp
    ultimately show ?thesis
      by (cases order) simp_all
  next
    case False
    with Inr b show ?thesis
      by (simp add: networkFirst_def fetch_def emit_simps dynamic_entries_def)
  qed
qed

text \<open>
  As long as the cache holds at most the maximum before each write, nothing is deleted:
  writes of new keys are appended in order.
\<close>

lemma dynamic_writes_untrimmed:
  "list_all (\<lambda>w. req_method (fst w) = ''GET'' \<and> status (snd w) = 200) ws \<Longrightarrow>
   distinct (map fst (dynamic_entries s) @ map (url \<circ> fst) ws) \<Longrightarrow>
   length (dynamic_entries s) + length ws \<le> Suc MAX_DYNAMIC_CACHE_SIZE \<Longrightarrow>
   dynamic_entries (dynamic_writes PutAfterTrim ws s) =
     dynamic_entries s @ map (\<lambda>w. (url (fst w), snd w)) ws"
proof (induction ws arbitrary: s)
  case Nil
  then show ?case by simp
next
  case (Cons w ws)
  obtain q r where w: "w = (q, r)" by (cases w)
  let ?s' = "snd (networkFirst PutAfterTrim (always r) q s)"
  from Cons.prems w have get: "req_method q = ''GET''" and ok: "status r = 200"
    by simp_all
  from Cons.prems w have small: "length (dynamic_entries s) \<le> MAX_DYNAMIC_CACHE_SIZE"
    by simp
  from Cons.prems w have new: "url q \<notin> fst ` set (dynamic_entries s)"
    by auto
  have step: "dynamic_entries ?s' = dynamic_entries s @ [(url q, r)]"
    using dynamic_entries_networkFirst_200 [of "always r" q r s] get ok small new
    by (simp add: always_def trimmed_small put_entry_new)
  have "dynamic_entries (dynamic_writes PutAfterTrim ws ?s') =
      dynamic_entries ?s' @ map (\<lambda>w. (url (fst w), snd w)) ws"
  proof (rule Cons.IH)
    show "list_all (\<lambda>w. req_method (fst w) = ''GET'' \<and> status (snd w) = 200) ws"
      using Cons.prems by simp
    show "distinct (map fst (dynamic_entries ?s') @ map (url \<circ> fst) ws)"
      using Cons.prems w by (auto simp: step comp_def)
    show "length (dynamic_entries ?s') + length ws \<le> Suc MAX_DYNAMIC_CACHE_SIZE"
      using Cons.prems by (simp add: step)
  qed
  then show ?case by (simp add: w step)
qed

lemma url_dynamic_request_inj: "url (dynamic_request i) = url (dynamic_request j) \<Longrightarrow> i = j"
proof -
  assume "url (dynamic_request i) = url (dynamic_request j)"
  then have "length (url (dynamic_request i)) = length (url (dynamic_request j))"
    by simp
  then show "i = j" by (simp add: url_def dynamic_request_def)
qed

lemma distinct_first_writes: "distinct (map (url \<circ> fst) (first_writes n))"
  by (auto simp: first_writes_def distinct_map comp_def inj_on_def dest: url_dynamic_request_inj)

lemma first_writes_all_stored:
  assumes "n \<le> Suc MAX_DYNAMIC_CACHE_SIZE"
  shows "dynamic_entries (dynamic_writes PutAfterTrim (first_writes n) fresh) =
     map (\<lambda>w. (url (fst w), snd w)) (first_writes n)"
proof -
  have "dynamic_entries fresh = []"
    by (simp add: dynamic_entries_def fresh_def)
  moreover have
    "list_all (\<lambda>w. req_method (fst w) = ''GET'' \<and> status (snd w) = 200) (first_writes n)"
    by (simp add: first_writes_def list_all_iff dynamic_request_def ok200_def)
  moreover have "length (first_writes n) = n"
    by (simp add: first_writes_def)
  ultimately show ?thesis
    using dynamic_writes_untrimmed [of "first_writes n" fresh] assms
      distinct_first_writes [of n]
    by simp
qed

text \<open>
  The deletions take the oldest entries: with distinct keys, what is left of the cache
  is its newest \<open>maxSize\<close> entries.
\<close>

lemma trimmed_distinct:
  assumes "distinct (map fst c)"
  shows "trimmed maxSize c = drop (length c - maxSize) c"
proof (cases "length c > maxSize")
  case False
  then show ?thesis by (simp add: trimmed_def)
next
  case True
  let ?d = "length c - maxSize"
  let ?P = "\<lambda>e. fst e \<notin> set (take ?d (map fst c))"
  have "distinct (map fst (take ?d c) @ map fst (drop ?d c))"
    using assms by (metis append_take_drop_id map_append)
  then have disj: "set (map fst (take ?d c)) \<inter> set (map fst (drop ?d c)) = {}"
    by simp
  have "filter ?P (take ?d c) = []"
    by (auto simp: filter_empty_conv take_map)
  moreover have "filter ?P (drop ?d c) = drop ?d c"
    using disj by (auto simp: filter_id_conv take_map)
  ultimately have "filter ?P c = drop ?d c"
    by (metis append_Nil append_take_drop_id filter_append)
  with True show ?thesis by (simp add: trimmed_def)
qed

lemma dynamic_writes_append:
  "dynamic_writes order (ws @ ws') s = dynamic_writes order ws' (dynamic_writes order ws s)"
  by (induction ws arbitrary: s) auto

lemma first_writes_Suc: "first_writes (Suc n) = first_writes n @ [(dynamic_request n, ok200)]"
  by (simp add: first_writes_def)

lemma fst_stored_inj: "fst (stored i) = fst (stored j) \<Longrightarrow> i = j"
  by (simp add: stored_def url_dynamic_request_inj)

lemma distinct_stored: "distinct (map fst (map stored [a..<b]))"
  by (auto simp: distinct_map inj_on_def dest: fst_stored_inj)

text \<open>
  The DYNAMIC cache after \<open>n\<close> writes of distinct keys into an empty storage: the last
  51 keys written, oldest first. Eviction is first-in first-out, one write late.
\<close>

lemma first_writes_fifo:
  "dynamic_entries (dynamic_writes PutAfterTrim (first_writes n) fresh) =
     map stored [n - Suc MAX_DYNAMIC_CACHE_SIZE..<n]"
proof (induction n)
  case 0
  show ?case by (simp add: first_writes_def dynamic_entries_def fresh_def)
next
  case (Suc n)
  let ?s = "dynamic_writes PutAfterTrim (first_writes n) fresh"
  let ?m = MAX_DYNAMIC_CACHE_SIZE
  have len: "length (dynamic_entries ?s) - ?m = (n - ?m) - (n - Suc ?m)"
    by (simp add: Suc.IH)
  have "trimmed ?m (dynamic_entries ?s) =
      drop ((n - ?m) - (n - Suc ?m)) (map stored [n - Suc ?m..<n])"
    using trimmed_distinct [of "dynamic_entries ?s" ?m] distinct_stored [of "n - Suc ?m" n] len
    by (simp add: Suc.IH)
  also have "\<dots> = map stored [n - ?m..<n]"
  proof -
    have "n - Suc ?m + ((n - ?m) - (n - Suc ?m)) = n - ?m"
      by arith
    then show ?thesis by (simp add: drop_map)
  qed
  finally have tr: "trimmed ?m (dynamic_entries ?s) = map stored [n - ?m..<n]" .
  have new: "url (dynamic_request n) \<notin> fst ` set (map stored [n - ?m..<n])"
    by (auto simp: stored_def dest: url_dynamic_request_inj)
  have get: "req_method (dynamic_request n) = ''GET''"
    by (simp add: dynamic_request_def)
  have ok: "status ok200 = 200"
    by (simp add: ok200_def)
  have up: "always ok200 (dynamic_request n) = Inr ok200"
    by (simp add: always_def)
  have "dynamic_entries (snd (networkFirst PutAfterTrim (always ok200) (dynamic_request n) ?s)) =
      put_entry (url (dynamic_request n)) ok200 (trimmed ?m (dynamic_entries ?s))"
    using dynamic_entries_networkFirst_200 [of "always ok200" "dynamic_request n" ok200 ?s]
      get ok up
    by simp
  also have "\<dots> = map stored [n - ?m..<n] @ [stored n]"
    using put_entry_new [OF new, of ok200] by (simp only: tr stored_def)
  also have "\<dots> = map stored [Suc n - Suc ?m..<Suc n]"
    by simp
  finally show ?case
    by (simp add: first_writes_Suc dynamic_writes_append)
qed

text \<open>The 52nd write is the first that evicts: it removes the first key written.\<close>

lemma first_key_evicted_by_52nd_write:
  "dynamic_entries (dynamic_writes PutAfterTrim (first_writes 52) fresh) =
     map stored [1..<52] \<and>
   url (dynamic_request 0) \<notin>
     fst ` set (dynamic_entries (dynamic_writes PutAfterTrim (first_writes 52) fresh))"
proof -
  have e: "dynamic_entries (dynamic_writes PutAfterTrim (first_writes 52) fresh) =
      map stored [1..<52]"
    by (simp add: first_writes_fifo MAX_DYNAMIC_CACHE_SIZE_def)
  have "url (dynamic_request 0) \<notin> fst ` set (map stored [1..<52])"
    by (auto simp: stored_def dest: url_dynamic_request_inj)
  with e show ?thesis by simp
qed

text \<open>
  Claim C1: after every write-and-evict cycle of the network-first strategy the DYNAMIC
  cache holds at most \<open>MAX_DYNAMIC_CACHE_SIZE\<close> (50) entries. The code calls
  \<open>limitCacheSize\<close> before \<open>cache.put\<close>; in that order the cache is trimmed before the
  new entry is written, and the claim fails: 51 writes of distinct keys into an empty
  storage leave 51 entries.
\<close>

theorem dynamic_cache_exceeds_maximum:
  "length (first_writes 51) = 51 \<and>
   length (dynamic_entries (dynamic_writes PutAfterTrim (first_writes 51) fresh)) = 51 \<and>
   MAX_DYNAMIC_CACHE_SIZE <
     length (dynamic_entries (dynamic_writes PutAfterTrim (first_writes 51) fresh))"
proof -
  have "dynamic_entries (dynamic_writes PutAfterTrim (first_writes 51) fresh) =
      map (\<lambda>w. (url (fst w), snd w)) (first_writes 51)"
    by (rule first_writes_all_stored) (simp add: MAX_DYNAMIC_CACHE_SIZE_def)
  then show ?thesis
    by (simp add: first_writes_def MAX_DYNAMIC_CACHE_SIZE_def)
qed

text \<open>
  Claim C2: eviction is first-in first-out, and after 51 distinct keys were written with
  a maximum of 50 the first key written is gone and the 50 later ones are present. On
  the code, in the order of its calls, the 51st write deletes nothing: \<open>cache.keys()\<close>
  then lists all the 51 keys in the order of the writes, the first key written among
  them.
\<close>

theorem first_key_survives_51_writes:
  "distinct (map (url \<circ> fst) (first_writes 51)) \<and>
   fst (cache_keys DYNAMIC_CACHE (dynamic_writes PutAfterTrim (first_writes 51) fresh)) =
     map (url \<circ> fst) (first_writes 51) \<and>
   url (dynamic_request 0) \<in>
     set (fst (cache_keys DYNAMIC_CACHE (dynamic_writes PutAfterTrim (first_writes 51) fresh)))"
proof -
  have "dynamic_entries (dynamic_writes PutAfterTrim (first_writes 51) fresh) =
      map (\<lambda>w. (url (fst w), snd w)) (first_writes 51)"
    by (rule first_writes_all_stored) (simp add: MAX_DYNAMIC_CACHE_SIZE_def)
  then have keys:
    "fst (cache_keys DYNAMIC_CACHE (dynamic_writes PutAfterTrim (first_writes 51) fresh)) =
      map (url \<circ> fst) (first_writes 51)"
    by (simp add: cache_keys_def dynamic_entries_def comp_def)
  have "url (dynamic_request 0) \<in> set (map (url \<circ> fst) (first_writes 51))"
    by (simp add: first_writes_def comp_def image_iff) (rule bexI [of _ 0], simp_all)
  with keys distinct_first_writes [of 51] show ?thesis
    by simp
qed

subsection \<open>Install\<close>

lemma fetch_all_eq:
  "fetch_all net qs s = (map net qs, s\<lparr>events := events s @ map (\<lambda>q. Fetch (url q)) qs\<rparr>)"
  by (induction qs arbitrary: s) (simp_all add: fetch_def emit_def)

lemma fetch_events_kept:
  "filter (\<lambda>e. case e of Fetch u \<Rightarrow> True | _ \<Rightarrow> False) (map (\<lambda>q. Fetch (url q)) qs) =
     map (\<lambda>q. Fetch (url q)) qs"
  by (induction qs) simp_all

lemma cache_addAll_rejected:
  assumes "\<not> list_all addable (map net qs)"
  shows "cache_addAll name qs net s =
     (Inl (TypeError ''Failed to execute addAll on Cache''),
      s\<lparr>events := events s @ AddAll name # map (\<lambda>q. Fetch (url q)) qs\<rparr>)"
  using assms by (simp add: cache_addAll_def fetch_all_eq emit_def)

text \<open>
  When \<open>addAll\<close> rejects, the \<open>catch\<close> of the listener logs the error, and the promise
  handed to \<open>waitUntil\<close> is fulfilled.
\<close>

lemma onInstall_rejected:
  assumes "\<not> list_all addable (map net (map (request_of loc) STATIC_ASSETS))"
  shows "onInstall loc net s =
     (Inr (),
      s\<lparr>storage := open_in STATIC_CACHE (storage s),
        events := events s @
          [ConsoleLog ''Service Worker installing...'', Open STATIC_CACHE,
           ConsoleLog ''Caching static assets...'', AddAll STATIC_CACHE] @
          map (\<lambda>q. Fetch (url q)) (map (request_of loc) STATIC_ASSETS) @
          [ConsoleError ''Error caching static assets:'']\<rparr>)"
  using assms
  by (simp add: onInstall_def cache_addAll_rejected caches_open_def emit_def)

lemma storage_installed:
  "storage installed =
     [(STATIC_CACHE,
       [(site @ ''/'', ok200), (site @ ''/index.html'', ok200), (site @ ''/styles.css'', ok200),
        (site @ ''/script.js'', ok200), (site @ ''/images/about1.jpeg'', ok200),
        (site @ ''/images/about2.jpeg'', ok200), (site @ ''/images/about3.jpeg'', ok200),
        (site @ ''/images/about4.jpeg'', ok200), (site @ ''/images/about5.jpeg'', ok200)])]"
  by (simp add: installed_def onInstall_def cache_addAll_def fetch_all_eq caches_open_def
      open_in_def emit_def fresh_def STATIC_ASSETS_def always_def addable_def ok200_def
      skipWaiting_def cache_put_def request_of_def url_def put_entry_def site_def)

lemma fetches_installed: "fetches installed = map (\<lambda>a. Fetch (site @ a)) STATIC_ASSETS"
  by (simp add: installed_def onInstall_def cache_addAll_def fetch_all_eq caches_open_def
      open_in_def emit_def fresh_def STATIC_ASSETS_def always_def addable_def ok200_def
      skipWaiting_def cache_put_def request_of_def url_def put_entry_def fetches_def)

text \<open>
  Claim C3, as amended: if a URL of the manifest cannot be fetched during install, the
  error is caught and logged and the install step does not fail (the promise handed to
  \<open>waitUntil\<close> is fulfilled); \<open>skipWaiting\<close> is not called, every URL of the manifest
  was fetched once and none again, and nothing is written into the STATIC cache.
\<close>

theorem install_swallows_fetch_failure:
  assumes "a \<in> set STATIC_ASSETS" and "net (request_of loc a) = Inl e"
  shows "\<not> install_fails (fst (onInstall loc net s)) \<and>
     skipWaitingCalled (snd (onInstall loc net s)) = skipWaitingCalled s \<and>
     storage (snd (onInstall loc net s)) = open_in STATIC_CACHE (storage s) \<and>
     fetches (snd (onInstall loc net s)) =
       fetches s @ map (\<lambda>asset. Fetch (loc @ asset)) STATIC_ASSETS \<and>
     last (events (snd (onInstall loc net s))) = ConsoleError ''Error caching static assets:''"
proof -
  have "\<not> addable (net (request_of loc a))"
    using assms(2) by (simp add: addable_def)
  then have "\<not> list_all addable (map net (map (request_of loc) STATIC_ASSETS))"
    using assms(1) by (auto simp: list_all_iff)
  from onInstall_rejected [OF this, of s] show ?thesis
    by (simp add: install_fails_def fetches_def fetch_events_kept comp_def url_def
        request_of_def)
qed

theorem install_swallows_fetch_failure_witness:
  "''/styles.css'' \<in> set STATIC_ASSETS \<and>
   failing_for ''/styles.css'' ok200 (request_of site ''/styles.css'') =
     Inl (TypeError ''Failed to fetch'') \<and>
   \<not> install_fails (fst (onInstall site (failing_for ''/styles.css'' ok200) fresh)) \<and>
   storage (snd (onInstall site (failing_for ''/styles.css'' ok200) fresh)) =
     [(STATIC_CACHE, [])] \<and>
   \<not> skipWaitingCalled (snd (onInstall site (failing_for ''/styles.css'' ok200) fresh))"
  using install_swallows_fetch_failure [of "''/styles.css''"
      "failing_for ''/styles.css'' ok200" site "TypeError ''Failed to fetch''" fresh]
  by (simp add: STATIC_ASSETS_def failing_for_def request_of_def fresh_def open_in_def)

text \<open>
  The claim as the specification states it fails: with the stylesheet unreachable the
  install step does not fail.
\<close>

theorem install_fetch_failure_counterexample:
  "''/styles.css'' \<in> set STATIC_ASSETS \<and>
   failing_for ''/styles.css'' ok200 (request_of site ''/styles.css'') =
     Inl (TypeError ''Failed to fetch'') \<and>
   \<not> install_fails (fst (onInstall site (failing_for ''/styles.css'' ok200) fresh))"
proof -
  have "\<not> list_all addable
      (map (failing_for ''/styles.css'' ok200) (map (request_of site) STATIC_ASSETS))"
    by (simp add: STATIC_ASSETS_def failing_for_def request_of_def addable_def)
  from onInstall_rejected [OF this, of fresh] show ?thesis
    by (simp add: install_fails_def STATIC_ASSETS_def failing_for_def request_of_def)
qed

subsection \<open>Cache first\<close>

text \<open>
  Claim C4: a request with a matching cache entry gets the cached response and no
  network fetch is issued; a request with no matching entry whose fetch fails gets a
  response with status 503.
\<close>

theorem cacheFirst_hit_or_offline:
  "(match_in (storage s) q = Some r \<longrightarrow>
      fst (cacheFirst net q s) = r \<and>
      fetches (snd (cacheFirst net q s)) = fetches s \<and>
      storage (snd (cacheFirst net q s)) = storage s) \<and>
   (match_in (storage s) q = None \<and> net q = Inl e \<longrightarrow>
      fst (cacheFirst net q s) = unavailable ''Offline content not available'' \<and>
      status (fst (cacheFirst net q s)) = 503)"
  by (simp add: cacheFirst_def caches_match_def fetch_def fetches_emit emit_simps
      unavailable_def)

theorem cacheFirst_hit_or_offline_witness:
  "match_in (storage installed) (get_request ''/styles.css'') = Some ok200 \<and>
   fst (cacheFirst offline (get_request ''/styles.css'') installed) = ok200 \<and>
   fetches (snd (cacheFirst offline (get_request ''/styles.css'') installed)) =
     fetches installed \<and>
   match_in (storage fresh) (get_request ''/styles.css'') = None \<and>
   status (fst (cacheFirst offline (get_request ''/styles.css'') fresh)) = 503"
proof -
  have hit: "match_in (storage installed) (get_request ''/styles.css'') = Some ok200"
    by (simp add: storage_installed cache_lookup_def get_request_def url_def)
  have miss: "match_in (storage fresh) (get_request ''/styles.css'') = None"
    by (simp add: fresh_def)
  have down: "offline (get_request ''/styles.css'') = Inl (TypeError ''Failed to fetch'')"
    by (simp add: offline_def)
  from hit miss down
    cacheFirst_hit_or_offline [of installed "get_request ''/styles.css''" ok200 offline
      "TypeError ''Failed to fetch''"]
    cacheFirst_hit_or_offline [of fresh "get_request ''/styles.css''" ok200 offline
      "TypeError ''Failed to fetch''"]
  show ?thesis by (simp add: unavailable_def)
qed

lemma cache_lookup_put_entry:
  "req_method q = ''GET'' \<Longrightarrow> cache_lookup (put_entry (url q) r c) q = Some r"
proof -
  assume get: "req_method q = ''GET''"
  have "map_of (filter (\<lambda>e. fst e \<noteq> url q) c) (url q) = None"
    by (simp add: map_of_eq_None_iff image_iff)
  with get show ?thesis
    by (simp add: cache_lookup_def put_entry_def map_add_def)
qed

lemma match_in_upd_cache:
  "match_in st q = None \<Longrightarrow> has_cache name st \<Longrightarrow>
   cache_lookup (f (entries_of name st)) q = Some r \<Longrightarrow>
   match_in (upd_cache name f st) q = Some r"
proof (induction st)
  case Nil
  then show ?case by simp
next
  case (Cons x st)
  obtain n c where x: "x = (n, c)" by (cases x)
  from Cons.prems(1) x have miss: "cache_lookup c q = None" "match_in st q = None"
    by (simp_all split: option.splits)
  show ?case
  proof (cases "n = name")
    case True
    with Cons.prems x show ?thesis by simp
  next
    case False
    with Cons x miss show ?thesis by simp
  qed
qed

lemma match_in_open_in: "match_in st q = None \<Longrightarrow> match_in (open_in name st) q = None"
  by (induction st) (auto simp: open_in_def cache_lookup_def split: option.splits if_splits)

text \<open>
  Claim C5, as amended: on a cache miss the network response is returned; when the
  request is a GET and the status is exactly 200, a copy is put into the STATIC cache
  (the put is started before the response is returned and is not awaited), and a later
  lookup of the request finds it; a response with any other status, and a response to
  a request that is not a GET, is returned without being stored.
\<close>

theorem cacheFirst_stores_status_200:
  assumes "match_in (storage s) q = None" and "net q = Inr r"
  shows "fst (cacheFirst net q s) = r \<and>
     (req_method q = ''GET'' \<and> status r = 200 \<longrightarrow>
        static_entries (snd (cacheFirst net q s)) = put_entry (url q) r (static_entries s) \<and>
        match_in (storage (snd (cacheFirst net q s))) q = Some r) \<and>
     (req_method q \<noteq> ''GET'' \<and> status r = 200 \<longrightarrow>
        static_entries (snd (cacheFirst net q s)) = static_entries s) \<and>
     (status r \<noteq> 200 \<longrightarrow> storage (snd (cacheFirst net q s)) = storage s)"
proof -
  have miss: "match_in (open_in STATIC_CACHE (storage s)) q = None"
    using assms(1) by (rule match_in_open_in)
  have stored: "req_method q = ''GET'' \<Longrightarrow>
      match_in (upd_cache STATIC_CACHE (put_entry (url q) r) (open_in STATIC_CACHE (storage s))) q
        = Some r"
    using miss by (rule match_in_upd_cache) (simp_all add: has_cache_open_in cache_lookup_put_entry)
  from assms stored show ?thesis
    by (simp add: cacheFirst_def caches_match_def fetch_def emit_simps cache_put_def
        caches_open_def static_entries_def entries_of_upd_cache has_cache_open_in
        entries_of_open_in)
qed

theorem cacheFirst_stores_status_200_witness:
  "match_in (storage fresh) (get_request ''/images/logo.png'') = None \<and>
   fst (cacheFirst (always ok200) (get_request ''/images/logo.png'') fresh) = ok200 \<and>
   static_entries (snd (cacheFirst (always ok200) (get_request ''/images/logo.png'') fresh)) =
     [(site @ ''/images/logo.png'', ok200)]"
  using cacheFirst_stores_status_200 [of fresh "get_request ''/images/logo.png''"
      "always ok200" ok200]
  by (simp add: fresh_def always_def get_request_def ok200_def static_entries_def
      put_entry_def url_def)

text \<open>
  The claim as the specification states it fails. A response with status 204 is in the
  success range and is not stored; neither is a response with status 200 to a POST.
\<close>

theorem cacheFirst_success_range_counterexample:
  "match_in (storage fresh) (get_request ''/images/logo.png'') = None \<and>
   200 \<le> status no_content \<and> status no_content \<le> 299 \<and>
   fst (cacheFirst (always no_content) (get_request ''/images/logo.png'') fresh) = no_content \<and>
   storage (snd (cacheFirst (always no_content) (get_request ''/images/logo.png'') fresh)) = [] \<and>
   match_in (storage fresh) (post_request ''/styles.css'') = None \<and>
   fst (cacheFirst (always ok200) (post_request ''/styles.css'') fresh) = ok200 \<and>
   storage (snd (cacheFirst (always ok200) (post_request ''/styles.css'') fresh)) =
     [(STATIC_CACHE, [])]"
  by (simp add: cacheFirst_def caches_match_def fetch_def emit_simps cache_put_def
      caches_open_def open_in_def fresh_def always_def no_content_def ok200_def
      get_request_def post_request_def)

subsection \<open>Network first\<close>

lemma lookups_storage_update: "lookups (s\<lparr>storage := st\<rparr>) = lookups s"
  by (simp add: lookups_def)

lemma lookups_fold_delete: "lookups (fold (cache_delete name) ks s) = lookups s"
  by (induction ks arbitrary: s)
    (simp_all add: cache_delete_def lookups_emit lookups_storage_update)

lemma lookups_limitCacheSize: "lookups (limitCacheSize name maxSize s) = lookups s"
  by (simp add: limitCacheSize_def cache_keys_def caches_open_def Let_def lookups_emit
      lookups_storage_update lookups_fold_delete)

lemma storage_visited:
  "storage visited = [(DYNAMIC_CACHE, [(url (dynamic_request 0), ok200)])]"
  by (simp add: visited_def networkFirst_def fetch_def always_def ok200_def caches_open_def
      limitCacheSize_def cache_keys_def cache_put_def emit_simps open_in_def fresh_def
      Let_def MAX_DYNAMIC_CACHE_SIZE_def dynamic_request_def put_entry_def)

lemma match_in_visited: "match_in (storage visited) (dynamic_request 0) = Some ok200"
  by (simp add: storage_visited cache_lookup_def) (simp add: dynamic_request_def)

text \<open>
  Claim C6: when the network fetch fails, the network-first strategy returns the
  matching cached entry if there is one and a synthetic 503 response otherwise; the
  caller gets a response, not the error.
\<close>

theorem networkFirst_fallback:
  "net q = Inl e \<Longrightarrow>
   fst (networkFirst order net q s) =
     (case match_in (storage s) q of
        Some r \<Rightarrow> r
      | None \<Rightarrow> unavailable ''Content not available offline'') \<and>
   storage (snd (networkFirst order net q s)) = storage s"
  by (simp add: networkFirst_def caches_match_def fetch_def emit_simps Let_def
      split: option.splits)

theorem networkFirst_fallback_witness:
  "offline (dynamic_request 0) = Inl (TypeError ''Failed to fetch'') \<and>
   match_in (storage visited) (dynamic_request 0) = Some ok200 \<and>
   fst (networkFirst PutAfterTrim offline (dynamic_request 0) visited) = ok200 \<and>
   match_in (storage fresh) (dynamic_request 0) = None \<and>
   status (fst (networkFirst PutAfterTrim offline (dynamic_request 0) fresh)) = 503"
proof -
  have down: "offline (dynamic_request 0) = Inl (TypeError ''Failed to fetch'')"
    by (simp add: offline_def)
  have miss: "match_in (storage fresh) (dynamic_request 0) = None"
    by (simp add: fresh_def)
  from down match_in_visited miss
    networkFirst_fallback [where net = offline and q = "dynamic_request 0"
      and e = "TypeError ''Failed to fetch''" and order = PutAfterTrim and s = visited]
    networkFirst_fallback [where net = offline and q = "dynamic_request 0"
      and e = "TypeError ''Failed to fetch''" and order = PutAfterTrim and s = fresh]
  show ?thesis by (simp add: unavailable_def)
qed

text \<open>
  Claim C10: when the fetch of the network-first strategy completes with a response
  whose status is not 200, the response is returned as it is, nothing is stored and no
  cache is looked up; whenever the fetch completes with a response, whatever its status,
  the strategy looks nothing up in the caches.
\<close>

theorem networkFirst_non200_passthrough:
  assumes "net q = Inr r"
  shows "fst (networkFirst order net q s) = r \<and>
     lookups (snd (networkFirst order net q s)) = lookups s \<and>
     (status r \<noteq> 200 \<longrightarrow>
        snd (networkFirst order net q s) = emit (Fetch (url q)) s \<and>
        storage (snd (networkFirst order net q s)) = storage s)"
  using assms
  by (cases order)
    (simp_all add: networkFirst_def fetch_def emit_simps Let_def cache_put_def
      caches_open_def lookups_emit lookups_storage_update lookups_limitCacheSize)

theorem networkFirst_non200_passthrough_witness:
  "always not_found (dynamic_request 0) = Inr not_found \<and>
   status not_found \<noteq> 200 \<and>
   match_in (storage visited) (dynamic_request 0) = Some ok200 \<and>
   fst (networkFirst PutAfterTrim (always not_found) (dynamic_request 0) visited) = not_found \<and>
   storage (snd (networkFirst PutAfterTrim (always not_found) (dynamic_request 0) visited)) =
     storage visited \<and>
   lookups (snd (networkFirst PutAfterTrim (always not_found) (dynamic_request 0) visited)) =
     lookups visited"
proof -
  have up: "always not_found (dynamic_request 0) = Inr not_found"
    by (simp add: always_def)
  have bad: "status not_found \<noteq> 200"
    by (simp add: not_found_def)
  from match_in_visited up bad
    networkFirst_non200_passthrough [where net = "always not_found"
      and q = "dynamic_request 0" and r = not_found and order = PutAfterTrim and s = visited]
  show ?thesis by (simp add: emit_simps lookups_emit)
qed

subsection \<open>Navigation\<close>

lemma match_in_installed_root: "match_in (storage installed) (request_of site ''/'') = Some ok200"
  by (simp add: storage_installed cache_lookup_def request_of_def url_def)

text \<open>
  Claim C7: a navigation request that has no matching cache entry and whose network
  fetch fails is answered with what is cached for the root path, not with a 503
  response. (The listener handles requests of its own origin only. When nothing is
  cached for the root path, the promise given to \<open>respondWith\<close> is fulfilled with
  \<open>undefined\<close>; no 503 response is made on this path.)
\<close>

theorem navigation_fallback:
  "req_origin q = loc \<Longrightarrow> req_mode q = ''navigate'' \<Longrightarrow>
   match_in (storage s) q = None \<Longrightarrow> net q = Inl e \<Longrightarrow>
   fst (onFetch loc order net q s) =
     (case match_in (storage s) (request_of loc ''/'') of
        Some r \<Rightarrow> Responded r
      | None \<Rightarrow> RespondedUndefined)"
  by (simp add: onFetch_def caches_match_def fetch_def emit_simps Let_def
      split: option.splits)

theorem navigation_fallback_witness:
  "match_in (storage installed) (page_request ''/kontakt'') = None \<and>
   offline (page_request ''/kontakt'') = Inl (TypeError ''Failed to fetch'') \<and>
   match_in (storage installed) (request_of site ''/'') = Some ok200 \<and>
   status ok200 \<noteq> 503 \<and>
   fst (onFetch site PutAfterTrim offline (page_request ''/kontakt'') installed) =
     Responded ok200"
proof -
  have miss: "match_in (storage installed) (page_request ''/kontakt'') = None"
    by (simp add: storage_installed cache_lookup_def page_request_def url_def)
  have down: "offline (page_request ''/kontakt'') = Inl (TypeError ''Failed to fetch'')"
    by (simp add: offline_def)
  have nav: "req_origin (page_request ''/kontakt'') = site"
      "req_mode (page_request ''/kontakt'') = ''navigate''"
    by (simp_all add: page_request_def)
  from nav miss down match_in_installed_root
    navigation_fallback [where q = "page_request ''/kontakt''" and loc = site
      and s = installed and net = offline and e = "TypeError ''Failed to fetch''"
      and order = PutAfterTrim]
  show ?thesis by (simp add: ok200_def)
qed

text \<open>
  Claim C9: for a same-origin navigation request, when the root path has a cache entry,
  the fetch listener answers with that entry and issues no network fetch, whatever URL
  was asked for and whatever the network would have answered.
\<close>

theorem navigation_root_first:
  "req_origin q = loc \<Longrightarrow> req_mode q = ''navigate'' \<Longrightarrow>
   match_in (storage s) (request_of loc ''/'') = Some r \<Longrightarrow>
   fst (onFetch loc order net q s) = Responded r \<and>
   fetches (snd (onFetch loc order net q s)) = fetches s \<and>
   storage (snd (onFetch loc order net q s)) = storage s"
  by (simp add: onFetch_def caches_match_def fetches_emit emit_simps)

theorem navigation_root_first_witness:
  "always not_found (page_request ''/kontakt'') = Inr not_found \<and>
   fst (onFetch site PutAfterTrim (always not_found) (page_request ''/kontakt'') installed) =
     Responded ok200 \<and>
   fetches (snd (onFetch site PutAfterTrim (always not_found) (page_request ''/kontakt'') installed)) =
     fetches installed"
proof -
  have nav: "req_origin (page_request ''/kontakt'') = site"
      "req_mode (page_request ''/kontakt'') = ''navigate''"
    by (simp_all add: page_request_def)
  from nav match_in_installed_root
    navigation_root_first [where q = "page_request ''/kontakt''" and loc = site
      and s = installed and r = ok200 and net = "always not_found" and order = PutAfterTrim]
  show ?thesis by (simp add: always_def)
qed

subsection \<open>Activation\<close>

lemma storage_delete_if_old:
  "storage (delete_if_old n s) =
     filter (\<lambda>e. fst e \<noteq> n \<or> fst e = STATIC_CACHE \<or> fst e = DYNAMIC_CACHE) (storage s)"
  by (auto simp: delete_if_old_def caches_delete_def emit_simps filter_id_conv intro: filter_cong)

lemma storage_fold_delete_if_old:
  "storage (fold delete_if_old ns s) =
     filter (\<lambda>e. fst e \<notin> set ns \<or> fst e = STATIC_CACHE \<or> fst e = DYNAMIC_CACHE) (storage s)"
proof (induction ns arbitrary: s)
  case Nil
  then show ?case by simp
next
  case (Cons n ns)
  have "storage (fold delete_if_old (n # ns) s) =
      filter (\<lambda>e. fst e \<notin> set ns \<or> fst e = STATIC_CACHE \<or> fst e = DYNAMIC_CACHE)
        (filter (\<lambda>e. fst e \<noteq> n \<or> fst e = STATIC_CACHE \<or> fst e = DYNAMIC_CACHE) (storage s))"
    by (simp add: Cons.IH storage_delete_if_old)
  also have "\<dots> =
      filter (\<lambda>e. fst e \<notin> set (n # ns) \<or> fst e = STATIC_CACHE \<or> fst e = DYNAMIC_CACHE)
        (storage s)"
    by (auto intro: filter_cong)
  finally show ?case .
qed

lemma storage_onActivate:
  "storage (onActivate s) =
     filter (\<lambda>e. fst e = STATIC_CACHE \<or> fst e = DYNAMIC_CACHE) (storage s)"
  by (auto simp: onActivate_def caches_keys_def clients_claim_def emit_simps
      storage_fold_delete_if_old intro: filter_cong)

lemma entries_of_filter:
  "P name \<Longrightarrow> entries_of name (filter (\<lambda>e. P (fst e)) st) = entries_of name st"
  by (induction st) auto

lemma at_most_one_named:
  "distinct (map fst st) \<Longrightarrow> length (filter (\<lambda>e. fst e = name) st) \<le> Suc 0"
proof (induction st)
  case Nil
  then show ?case by simp
next
  case (Cons x st)
  show ?case
  proof (cases "fst x = name")
    case True
    with Cons.prems have "name \<notin> fst ` set st"
      by simp
    then have "filter (\<lambda>e. fst e = name) st = []"
      by (auto simp: filter_empty_conv image_iff)
    with True show ?thesis by simp
  next
    case False
    with Cons show ?thesis by simp
  qed
qed

text \<open>
  Claim C8: the activate listener deletes every cache whose name is neither the current
  STATIC nor the current DYNAMIC name and leaves the two current caches as they are;
  afterwards there is at most one STATIC and at most one DYNAMIC cache. The names of
  the browser's caches are distinct.
\<close>

theorem activate_cleanup:
  assumes "distinct (map fst (storage s))"
  shows "storage (onActivate s) =
       filter (\<lambda>e. fst e = STATIC_CACHE \<or> fst e = DYNAMIC_CACHE) (storage s) \<and>
     (n \<noteq> STATIC_CACHE \<and> n \<noteq> DYNAMIC_CACHE \<longrightarrow> \<not> has_cache n (storage (onActivate s))) \<and>
     has_cache STATIC_CACHE (storage (onActivate s)) = has_cache STATIC_CACHE (storage s) \<and>
     has_cache DYNAMIC_CACHE (storage (onActivate s)) = has_cache DYNAMIC_CACHE (storage s) \<and>
     static_entries (onActivate s) = static_entries s \<and>
     dynamic_entries (onActivate s) = dynamic_entries s \<and>
     length (filter (\<lambda>e. fst e = STATIC_CACHE) (storage (onActivate s))) \<le> 1 \<and>
     length (filter (\<lambda>e. fst e = DYNAMIC_CACHE) (storage (onActivate s))) \<le> 1"
proof -
  let ?current = "\<lambda>name. name = STATIC_CACHE \<or> name = DYNAMIC_CACHE"
  have st: "storage (onActivate s) = filter (\<lambda>e. ?current (fst e)) (storage s)"
    by (rule storage_onActivate)
  have "distinct (map fst (storage (onActivate s)))"
    using assms by (simp add: st distinct_map_filter)
  then have one: "length (filter (\<lambda>e. fst e = name) (storage (onActivate s))) \<le> 1" for name
    using at_most_one_named [of "storage (onActivate s)" name] by simp
  have gone: "n \<noteq> STATIC_CACHE \<and> n \<noteq> DYNAMIC_CACHE \<longrightarrow> \<not> has_cache n (storage (onActivate s))"
    by (auto simp: st has_cache_iff)
  have kept: "has_cache STATIC_CACHE (storage (onActivate s)) = has_cache STATIC_CACHE (storage s)"
      "has_cache DYNAMIC_CACHE (storage (onActivate s)) = has_cache DYNAMIC_CACHE (storage s)"
    by (auto simp: st has_cache_iff)
  have same: "static_entries (onActivate s) = static_entries s"
      "dynamic_entries (onActivate s) = dynamic_entries s"
    using entries_of_filter [of ?current STATIC_CACHE "storage s"]
      entries_of_filter [of ?current DYNAMIC_CACHE "storage s"]
    by (simp_all add: st static_entries_def dynamic_entries_def)
  from st gone kept same one [of STATIC_CACHE] one [of DYNAMIC_CACHE] show ?thesis
    by simp
qed

theorem activate_cleanup_witness:
  "distinct (map fst (storage upgraded)) \<and>
   has_cache ''podologie-weimar-v0.9.0-static'' (storage upgraded) \<and>
   \<not> has_cache ''podologie-weimar-v0.9.0-static'' (storage (onActivate upgraded)) \<and>
   storage (onActivate upgraded) = [(STATIC_CACHE, [(site @ ''/'', ok200)]), (DYNAMIC_CACHE, [])]"
  using activate_cleanup [of upgraded "''podologie-weimar-v0.9.0-static''"]
  by (simp add: upgraded_def fresh_def STATIC_CACHE_def DYNAMIC_CACHE_def CACHE_NAME_def)

end
